theory Spec2Isabelle
  imports Complex_Main "HOL-Library.Word"
begin

section \<open>Server: frame codec (server/main.go, wsConn.writeText)\<close>

text \<open>
  A byte is an 8-bit word; a payload is a byte list. Go's \<open>len(payload)\<close> is a
  non-negative \<open>int\<close>, modelled by the natural number \<open>length payload\<close>.
  \<open>byte(n)\<close> keeps the low 8 bits (\<open>word_of_nat\<close> on an 8-bit word does the same),
  \<open>n >> 8\<close> is \<open>drop_bit 8 n\<close>, and \<open>uint64(n)\<close> is the 64-bit word of \<open>n\<close>.
\<close>

type_synonym byte = "8 word"

definition finAndText :: byte where
  "finAndText = 0x81"

text \<open>The \<open>switch\<close> of \<open>writeText\<close>: the bytes appended after the leading byte.\<close>

definition length_prefix :: "nat \<Rightarrow> byte list" where
  "length_prefix n =
     (if n < 126 then [word_of_nat n]
      else if n \<le> 65535 then [126, word_of_nat (drop_bit 8 n), word_of_nat n]
      else [127,
            ucast (drop_bit 56 (word_of_nat n :: 64 word)),
            ucast (drop_bit 48 (word_of_nat n :: 64 word)),
            ucast (drop_bit 40 (word_of_nat n :: 64 word)),
            ucast (drop_bit 32 (word_of_nat n :: 64 word)),
            ucast (drop_bit 24 (word_of_nat n :: 64 word)),
            ucast (drop_bit 16 (word_of_nat n :: 64 word)),
            ucast (drop_bit 8 (word_of_nat n :: 64 word)),
            ucast (word_of_nat n :: 64 word)])"

text \<open>The frame that \<open>writeText\<close> builds before it takes the connection's mutex.\<close>

definition encode_frame :: "byte list \<Rightarrow> byte list" where
  "encode_frame payload = (finAndText # length_prefix (length payload)) @ payload"

text \<open>
  Reading a byte string as a big-endian number. This is the yardstick the length bytes
  are measured against; the server itself has no decoder.
\<close>

definition be_nat :: "byte list \<Rightarrow> nat" where
  "be_nat bs = foldl (\<lambda>acc b. acc * 256 + unat b) 0 bs"


section \<open>Server: connection registry (server/main.go, hub)\<close>

text \<open>
  A connection is identified by its pointer (\<open>*wsConn\<close>), here a natural number. The hub's
  \<open>conns\<close> map has the empty struct as value type, so it is a set. The network side of
  every connection is kept in the same record: the frames written to it so far and whether
  it has been closed. Whether a write to a connection fails or runs into its deadline is
  decided by the environment, given as a predicate \<open>wfail\<close> on connections. A failed write
  leaves the record of delivered frames as it was.
\<close>

type_synonym conn = nat

record server =
  conns :: "conn set"
  sent :: "conn \<Rightarrow> byte list list"
  closed :: "conn set"

definition newHub :: server where
  "newHub = \<lparr>conns = {}, sent = (\<lambda>_. []), closed = {}\<rparr>"

definition add :: "conn \<Rightarrow> server \<Rightarrow> server" where
  "add c h = h\<lparr>conns := insert c (conns h)\<rparr>"

definition remove :: "conn \<Rightarrow> server \<Rightarrow> server" where
  "remove c h = h\<lparr>conns := conns h - {c}, closed := insert c (closed h)\<rparr>"

definition count :: "server \<Rightarrow> nat" where
  "count h = card (conns h)"

text \<open>\<open>writeText\<close>: the result is the error flag (\<open>True\<close> for a non-nil error).\<close>

definition writeText :: "(conn \<Rightarrow> bool) \<Rightarrow> conn \<Rightarrow> byte list \<Rightarrow> server \<Rightarrow> bool \<times> server" where
  "writeText wfail c payload h =
     (if wfail c then (True, h)
      else (False, h\<lparr>sent := (sent h)(c := sent h c @ [encode_frame payload])\<rparr>))"

text \<open>The second loop of \<open>broadcastJSON\<close>, over the snapshot slice.\<close>

fun write_all :: "(conn \<Rightarrow> bool) \<Rightarrow> conn list \<Rightarrow> byte list \<Rightarrow> server \<Rightarrow> server" where
  "write_all wfail [] data h = h"
| "write_all wfail (c # cs) data h =
     (case writeText wfail c data h of
        (True, h') \<Rightarrow> write_all wfail cs data (remove c h')
      | (False, h') \<Rightarrow> write_all wfail cs data h')"

text \<open>
  \<open>broadcastJSON\<close>. The result of \<open>json.Marshal\<close> is the argument \<open>marshalled\<close>
  (\<open>None\<close> for an error, after which the function returns at once). Go ranges over a
  map in an unspecified order, so the snapshot slice is the argument \<open>snapshot\<close>: some
  enumeration of the members at that instant (\<open>is_snapshot\<close>). One broadcast is run on
  its own, without other goroutines changing the hub in between.
\<close>

definition is_snapshot :: "conn list \<Rightarrow> server \<Rightarrow> bool" where
  "is_snapshot snapshot h = (set snapshot = conns h \<and> distinct snapshot)"

definition broadcastJSON :: "(conn \<Rightarrow> bool) \<Rightarrow> conn list \<Rightarrow> byte list option \<Rightarrow> server \<Rightarrow> server" where
  "broadcastJSON wfail snapshot marshalled h =
     (case marshalled of
        None \<Rightarrow> h
      | Some data \<Rightarrow> write_all wfail snapshot data h)"


section \<open>Server: pulse scheduler (server/main.go, startPulseLoop)\<close>

text \<open>
  A \<open>time.Time\<close> is the number of nanoseconds since the Unix epoch and a
  \<open>time.Duration\<close> a number of nanoseconds, both integers; one clock serves
  \<open>time.Now\<close>, \<open>time.Until\<close> and \<open>UnixMilli\<close>. The sequence counter is a \<open>uint64\<close>.
\<close>

record pulseMessage =
  Type :: string
  Seq :: "64 word"
  PeriodMS :: int
  NowMS :: int
  NextMS :: int

definition Second :: int where
  "Second = 1000000000"

definition Millisecond :: int where
  "Millisecond = 1000000"

text \<open>\<open>Duration.Milliseconds\<close> divides by \<open>1e6\<close>, truncating towards zero.\<close>

definition Milliseconds :: "int \<Rightarrow> int" where
  "Milliseconds d = (if d < 0 then - ((- d) div 1000000) else d div 1000000)"

text \<open>\<open>Time.UnixMilli\<close>: seconds times 1000 plus the non-negative nanosecond part over \<open>1e6\<close>.\<close>

definition UnixMilli :: "int \<Rightarrow> int" where
  "UnixMilli t = t div 1000000"

text \<open>
  The program reads the clock again and again; the readings are the input of the model, a
  list consumed from the front, one element per call of \<open>time.Now\<close> or \<open>time.Until\<close>.
  \<open>time.Sleep\<close> only lets time pass, so it shows in the later readings and nowhere else.
  The loop never returns; the model runs it for as long as there are readings and yields
  the broadcasts made up to then. Each broadcast is logged with the instant it was due:
  the first reading for the immediate message, the loop variable \<open>next\<close> for a tick.
\<close>

record emission =
  due :: int
  msg :: pulseMessage

text \<open>The inner loop \<open>for time.Until(next) <= 0 { next = next.Add(period) }\<close>.\<close>

fun catch_up :: "int \<Rightarrow> int \<Rightarrow> int list \<Rightarrow> (int \<times> int list) option" where
  "catch_up period next [] = None"
| "catch_up period next (c # cs) =
     (if next - c \<le> 0 then catch_up period (next + period) cs else Some (next, cs))"

lemma catch_up_shorter:
  "catch_up period nxt cs = Some (nxt', cs') \<Longrightarrow> length cs' < length cs"
  by (induction cs arbitrary: nxt) (auto split: if_splits simp: less_Suc_eq)

text \<open>The outer \<open>for\<close> loop, entered with the current \<open>seq\<close> and \<open>next\<close>.\<close>

function pulse_loop :: "int \<Rightarrow> int \<Rightarrow> 64 word \<Rightarrow> int \<Rightarrow> int list \<Rightarrow> emission list" where
  "pulse_loop period periodMS seq next clock =
     (case clock of
        sleepRead # now # rest \<Rightarrow>
          \<lparr>due = next,
           msg = \<lparr>Type = ''pulse'', Seq = seq, PeriodMS = periodMS,
                  NowMS = UnixMilli now, NextMS = UnixMilli (next + period)\<rparr>\<rparr>
          # (case catch_up period (next + period) rest of
               Some (next', rest') \<Rightarrow> pulse_loop period periodMS (seq + 1) next' rest'
             | None \<Rightarrow> [])
      | _ \<Rightarrow> [])"
  by pat_completeness auto
termination
  by (relation "measure (\<lambda>(period, periodMS, seq, next, clock). length clock)")
     (auto dest: catch_up_shorter)

declare pulse_loop.simps [simp del]

definition startPulseLoop :: "int \<Rightarrow> int list \<Rightarrow> emission list" where
  "startPulseLoop period0 clock =
     (let period = (if period0 \<le> 0 then Second else period0);
          periodMS = Milliseconds period
      in case clock of
           start # now # rest \<Rightarrow>
             \<lparr>due = start,
              msg = \<lparr>Type = ''pulse'', Seq = 0, PeriodMS = periodMS,
                     NowMS = UnixMilli now, NextMS = UnixMilli (start + period)\<rparr>\<rparr>
             # pulse_loop period periodMS 1 (start + period) rest
         | _ \<Rightarrow> [])"

text \<open>\<open>parsePeriodMS\<close> on the trimmed value of \<open>PULSE_PERIOD_MS\<close>, already read by
  \<open>strconv.ParseInt\<close> (\<open>None\<close> when the variable is empty or does not parse as an
  \<open>int64\<close>). The product \<open>time.Duration(ms) * time.Millisecond\<close> is an \<open>int64\<close>
  product and wraps around.\<close>

definition parsePeriodMS :: "int option \<Rightarrow> int" where
  "parsePeriodMS raw =
     (case raw of
        None \<Rightarrow> Second
      | Some ms \<Rightarrow>
          if ms \<le> 0 then Second
          else sint (word_of_int ms * word_of_int Millisecond :: 64 word))"


section \<open>Client: sync engine (src/pulse-sync.ts, PulseSyncClient)\<close>

text \<open>
  A JavaScript number is a finite value, \<open>NaN\<close> or an infinity. Finite values are
  modelled as reals: the rounding of IEEE doubles is left out, the non-finite values are
  kept because \<open>finiteOr\<close> tests for them. A field of a parsed message or of the options
  object is absent (\<open>undefined\<close>), \<open>null\<close>, a boolean or a number; strings and nested
  objects are left out. \<open>Number_js\<close> is JavaScript's \<open>Number(v)\<close> on these values.
\<close>

datatype jsnum = Finite real | NaN | PosInf | NegInf

datatype jsval = Undefined | Null | Bool bool | Num jsnum

fun Number_js :: "jsval \<Rightarrow> jsnum" where
  "Number_js Undefined = NaN"
| "Number_js Null = Finite 0"
| "Number_js (Bool b) = Finite (if b then 1 else 0)"
| "Number_js (Num n) = n"

definition finiteOr :: "jsval \<Rightarrow> real \<Rightarrow> real" where
  "finiteOr v fallback = (case Number_js v of Finite n \<Rightarrow> n | _ \<Rightarrow> fallback)"

definition clamp :: "real \<Rightarrow> real \<Rightarrow> real \<Rightarrow> real" where
  "clamp v lo hi = min hi (max lo v)"

text \<open>The wire message as \<open>JSON.parse\<close> hands it over, once \<open>type\<close> is known to be \<open>"pulse"\<close>.\<close>

record PulseMessage =
  seq :: jsval
  period_ms :: jsval
  now_ms :: jsval
  next_ms :: jsval

text \<open>What the \<open>message\<close> listener sees: text that does not parse, a value that is not a
  pulse message, or a pulse message.\<close>

datatype inbound = Unparsable | NotPulse | IsPulse PulseMessage

record PulseSyncOptions =
  opt_thresholdMs :: jsval
  opt_requiredStablePulses :: jsval
  opt_allowedUnstablePulses :: jsval
  opt_beta :: jsval
  opt_maxBiasCorrectionMs :: jsval
  opt_stickyLock :: "bool option"

text \<open>The read-only fields the constructor sets (the URL plays no part in the engine).
  \<open>Math.floor\<close> yields a whole number, kept as an integer.\<close>

record config =
  thresholdMs :: real
  requiredStablePulses :: int
  allowedUnstablePulses :: int
  beta :: real
  maxBiasCorrectionMs :: real
  stickyLock :: bool

definition constructor :: "PulseSyncOptions \<Rightarrow> config" where
  "constructor opts =
     \<lparr>thresholdMs = finiteOr (opt_thresholdMs opts) 5,
      requiredStablePulses = max 1 (floor (finiteOr (opt_requiredStablePulses opts) 15)),
      allowedUnstablePulses = max 0 (floor (finiteOr (opt_allowedUnstablePulses opts) 2)),
      beta = finiteOr (opt_beta opts) 0.05,
      maxBiasCorrectionMs = max 0.001 (finiteOr (opt_maxBiasCorrectionMs opts) 25),
      stickyLock = (case opt_stickyLock opts of None \<Rightarrow> True | Some b \<Rightarrow> b)\<rparr>"

record LastPulse =
  lp_seq :: jsval
  lp_serverNowMs :: real
  lp_serverNextMs :: real
  lp_periodMs :: real
  lp_arrivalMonoMs :: real

record PulseEventDetail =
  ev_seq :: jsval
  ev_periodMs :: real
  ev_serverNowMs :: real
  ev_serverNextMs :: real
  ev_arrivalMonoMs :: real
  ev_predictedArrivalMonoMs :: "real option"
  ev_errorMs :: "real option"
  ev_biasMs :: real
  ev_stableCount :: nat
  ev_locked :: bool
  ev_estimatedServerNowMs :: "real option"
  ev_elapsedSinceLockMs :: "real option"

datatype event = Status bool | Lock bool | Pulse PulseEventDetail

text \<open>The mutable fields of the client; \<open>ws\<close> tells whether a socket handle is held.\<close>

record client =
  ws :: bool
  connected :: bool
  lastPulse :: "LastPulse option"
  lastPredictedArrivalMono :: "real option"
  arrivalBiasMs :: real
  stableCount :: nat
  recentStability :: "bool list"
  preserveStateOnClose :: bool
  lockOriginMonoMs :: "real option"
  lockOriginServerMs :: "real option"
  locked :: bool
  estimatedServerNowMs :: "real option"

definition new_client :: client where
  "new_client =
     \<lparr>ws = False, connected = False, lastPulse = None, lastPredictedArrivalMono = None,
      arrivalBiasMs = 0, stableCount = 0, recentStability = [], preserveStateOnClose = False,
      lockOriginMonoMs = None, lockOriginServerMs = None, locked = False,
      estimatedServerNowMs = None\<rparr>"

definition clearLockOrigin :: "client \<Rightarrow> client" where
  "clearLockOrigin s = s\<lparr>lockOriginMonoMs := None, lockOriginServerMs := None\<rparr>"

definition captureLockOrigin :: "real \<Rightarrow> client \<Rightarrow> client" where
  "captureLockOrigin arrival s =
     (case lastPulse s of
        None \<Rightarrow> s
      | Some lp \<Rightarrow> s\<lparr>lockOriginMonoMs := Some arrival,
                      lockOriginServerMs := Some (lp_serverNowMs lp)\<rparr>)"

definition stabilityTarget :: "config \<Rightarrow> int" where
  "stabilityTarget cfg = max 1 (requiredStablePulses cfg - allowedUnstablePulses cfg)"

text \<open>The methods that read \<open>performance.now()\<close> take the reading as the argument \<open>now\<close>.\<close>

definition serverNowMs :: "client \<Rightarrow> real \<Rightarrow> real option" where
  "serverNowMs s now =
     (if \<not> locked s then None
      else case (lockOriginMonoMs s, lockOriginServerMs s) of
             (Some originMono, Some originServer) \<Rightarrow> Some (originServer + (now - originMono))
           | _ \<Rightarrow> (case lastPulse s of
                     None \<Rightarrow> None
                   | Some lp \<Rightarrow> Some (lp_serverNowMs lp + (now - lp_arrivalMonoMs lp))))"

definition elapsedSinceLockMs :: "client \<Rightarrow> real \<Rightarrow> real option" where
  "elapsedSinceLockMs s now =
     (if \<not> locked s then None
      else case lockOriginMonoMs s of
             None \<Rightarrow> None
           | Some originMono \<Rightarrow> Some (max 0 (now - originMono)))"

definition predictNextArrivalMonoMs :: "client \<Rightarrow> real option" where
  "predictNextArrivalMonoMs s =
     (case lastPulse s of
        None \<Rightarrow> None
      | Some lp \<Rightarrow> Some (lp_arrivalMonoMs lp + lp_periodMs lp + arrivalBiasMs s))"

definition updateStability :: "config \<Rightarrow> real option \<Rightarrow> client \<Rightarrow> client" where
  "updateStability cfg errorMs s =
     (case errorMs of
        None \<Rightarrow> s
      | Some e \<Rightarrow>
          let isStable = (\<bar>e\<bar> \<le> thresholdMs cfg);
              pushed = recentStability s @ [isStable];
              window = (if int (length pushed) > requiredStablePulses cfg then tl pushed else pushed)
          in s\<lparr>recentStability := window, stableCount := length (filter id window)\<rparr>)"

definition connect :: "client \<Rightarrow> client" where
  "connect s = (if ws s then s else s\<lparr>ws := True\<rparr>)"

text \<open>\<open>disconnect\<close> asks the socket to close; the \<open>close\<close> listener runs later, as an event
  of its own.\<close>

definition disconnect :: "bool \<Rightarrow> client \<Rightarrow> client" where
  "disconnect preserveLock s =
     (if \<not> ws s then s
      else s\<lparr>preserveStateOnClose := (preserveLock \<and> locked s), ws := False, connected := False\<rparr>)"

definition on_open :: "client \<Rightarrow> client \<times> event list" where
  "on_open s = (s\<lparr>connected := True\<rparr>, [Status True])"

definition on_close :: "client \<Rightarrow> client \<times> event list" where
  "on_close s =
     (let preserveState = preserveStateOnClose s;
          s1 = s\<lparr>preserveStateOnClose := False, connected := False, ws := False\<rparr>;
          s2 = (if \<not> preserveState
                then clearLockOrigin (s1\<lparr>locked := False, stableCount := 0, recentStability := []\<rparr>)
                else s1)
      in (s2, [Status False]))"

text \<open>
  \<open>handlePulse\<close> reads \<open>performance.now()\<close> three times: on arrival, inside
  \<open>serverNowMs\<close> and inside \<open>elapsedSinceLockMs\<close>. The three readings are the arguments
  \<open>arrivalMonoMs\<close>, \<open>nowProj\<close> and \<open>nowElapsed\<close>. The result is the new state and the
  events dispatched, in order.
\<close>

definition handlePulse ::
    "config \<Rightarrow> real \<Rightarrow> real \<Rightarrow> real \<Rightarrow> PulseMessage \<Rightarrow> client \<Rightarrow> client \<times> event list" where
  "handlePulse cfg arrivalMonoMs nowProj nowElapsed pulse s =
     (if stickyLock cfg \<and> locked s then (s, [])
      else
        let previousPrediction = lastPredictedArrivalMono s;
            errorMs = (case previousPrediction of
                         None \<Rightarrow> None
                       | Some p \<Rightarrow> Some (arrivalMonoMs - p));
            s1 = (case errorMs of
                    None \<Rightarrow> s
                  | Some e \<Rightarrow>
                      s\<lparr>arrivalBiasMs := arrivalBiasMs s
                           + beta cfg * clamp e (- maxBiasCorrectionMs cfg) (maxBiasCorrectionMs cfg)\<rparr>);
            periodMs = finiteOr (period_ms pulse) 1000;
            s2 = s1\<lparr>lastPulse := Some \<lparr>lp_seq = seq pulse,
                                         lp_serverNowMs = finiteOr (now_ms pulse) 0,
                                         lp_serverNextMs = finiteOr (next_ms pulse) 0,
                                         lp_periodMs = periodMs,
                                         lp_arrivalMonoMs = arrivalMonoMs\<rparr>\<rparr>;
            s3 = s2\<lparr>lastPredictedArrivalMono := predictNextArrivalMonoMs s2\<rparr>;
            s4 = updateStability cfg errorMs s3;
            wasLocked = locked s4;
            s5 = s4\<lparr>locked := (int (length (recentStability s4)) \<ge> requiredStablePulses cfg
                               \<and> int (stableCount s4) \<ge> stabilityTarget cfg)\<rparr>;
            lockEvents = (if \<not> wasLocked \<and> locked s5 then [Lock True]
                          else if wasLocked \<and> \<not> locked s5 then [Lock False]
                          else []);
            s6 = (if \<not> wasLocked \<and> locked s5 then
                    (let captured = captureLockOrigin arrivalMonoMs s5
                     in if stickyLock cfg then disconnect True captured else captured)
                  else if wasLocked \<and> \<not> locked s5 then clearLockOrigin s5
                  else s5);
            s7 = s6\<lparr>estimatedServerNowMs := serverNowMs s6 nowProj\<rparr>
        in (s7,
            lockEvents @
            [Pulse \<lparr>ev_seq = seq pulse,
                    ev_periodMs = periodMs,
                    ev_serverNowMs = finiteOr (now_ms pulse) 0,
                    ev_serverNextMs = finiteOr (next_ms pulse) 0,
                    ev_arrivalMonoMs = arrivalMonoMs,
                    ev_predictedArrivalMonoMs = previousPrediction,
                    ev_errorMs = errorMs,
                    ev_biasMs = arrivalBiasMs s7,
                    ev_stableCount = stableCount s7,
                    ev_locked = locked s7,
                    ev_estimatedServerNowMs = estimatedServerNowMs s7,
                    ev_elapsedSinceLockMs = elapsedSinceLockMs s7 nowElapsed\<rparr>]))"

text \<open>The \<open>message\<close> listener registered by \<open>connect\<close>.\<close>

definition on_message ::
    "config \<Rightarrow> real \<Rightarrow> real \<Rightarrow> real \<Rightarrow> inbound \<Rightarrow> client \<Rightarrow> client \<times> event list" where
  "on_message cfg arrivalMonoMs nowProj nowElapsed data s =
     (case data of
        Unparsable \<Rightarrow> (s, [])
      | NotPulse \<Rightarrow> (s, [])
      | IsPulse pulse \<Rightarrow> handlePulse cfg arrivalMonoMs nowProj nowElapsed pulse s)"

text \<open>
  What can happen to a client: the two public calls and the three socket events. A history
  is a list of these, run from the state the constructor leaves. Every order is allowed,
  which covers the orders a browser can produce.
\<close>

datatype action =
    Connect
  | Disconnect bool
  | SocketOpen
  | SocketClose
  | SocketMessage inbound real real real

fun step :: "config \<Rightarrow> action \<Rightarrow> client \<Rightarrow> client \<times> event list" where
  "step cfg Connect s = (connect s, [])"
| "step cfg (Disconnect preserveLock) s = (disconnect preserveLock s, [])"
| "step cfg SocketOpen s = on_open s"
| "step cfg SocketClose s = on_close s"
| "step cfg (SocketMessage data arrivalMonoMs nowProj nowElapsed) s =
     on_message cfg arrivalMonoMs nowProj nowElapsed data s"

fun run :: "config \<Rightarrow> action list \<Rightarrow> client \<Rightarrow> client \<times> event list" where
  "run cfg [] s = (s, [])"
| "run cfg (a # as) s =
     (case step cfg a s of
        (s', evs) \<Rightarrow> (case run cfg as s' of (s'', evs') \<Rightarrow> (s'', evs @ evs')))"


text \<open>The value \<open>handlePulse\<close> assigns to \<open>locked\<close>, as a predicate on the state.\<close>

definition lock_decision :: "config \<Rightarrow> client \<Rightarrow> bool" where
  "lock_decision cfg s =
     (int (length (recentStability s)) \<ge> requiredStablePulses cfg
      \<and> int (stableCount s) \<ge> stabilityTarget cfg)"


section \<open>Concrete inputs\<close>

text \<open>Clock traces for the scheduler (nanoseconds). In \<open>late_wakeup_clock\<close> the sleep before the
  first tick ends 2 ms after the deadline; in \<open>stalled_clock\<close> it ends 1.5 s after it.\<close>

definition late_wakeup_clock :: "int list" where
  "late_wakeup_clock = [0, 0, 0, 1002000000]"

definition stalled_clock :: "int list" where
  "stalled_clock = [0, 0, 0, 2500000000]"

text \<open>A hub with three members and no traffic yet.\<close>

definition three_conns :: server where
  "three_conns = \<lparr>conns = {1, 2, 3}, sent = (\<lambda>_. []), closed = {}\<rparr>"

text \<open>Client options: \<open>new PulseSyncClient({})\<close> and \<open>new PulseSyncClient({requiredStablePulses: 1})\<close>.\<close>

definition default_options :: PulseSyncOptions where
  "default_options =
     \<lparr>opt_thresholdMs = Undefined, opt_requiredStablePulses = Undefined,
      opt_allowedUnstablePulses = Undefined, opt_beta = Undefined,
      opt_maxBiasCorrectionMs = Undefined, opt_stickyLock = None\<rparr>"

definition window1_options :: PulseSyncOptions where
  "window1_options = default_options\<lparr>opt_requiredStablePulses := Num (Finite 1)\<rparr>"

text \<open>The server's message number \<open>n\<close> sent at \<open>t\<close> with a period of one second, and the same
  message with its \<open>seq\<close> field left out.\<close>

definition pulse_at :: "real \<Rightarrow> real \<Rightarrow> PulseMessage" where
  "pulse_at n t =
     \<lparr>seq = Num (Finite n), period_ms = Num (Finite 1000),
      now_ms = Num (Finite t), next_ms = Num (Finite (t + 1000))\<rparr>"

definition pulse_without_seq :: PulseMessage where
  "pulse_without_seq = (pulse_at 0 5000)\<lparr>seq := Undefined\<rparr>"

text \<open>Histories: a first pulse arriving at local time 0; a second one arriving one second
  late, or exactly on time; and a disconnect, close and reconnect after the first pulse.\<close>

definition first_pulse_history :: "action list" where
  "first_pulse_history = [Connect, SocketOpen, SocketMessage (IsPulse (pulse_at 0 5000)) 0 0 0]"

definition late_pulse_history :: "action list" where
  "late_pulse_history =
     first_pulse_history @ [SocketMessage (IsPulse (pulse_at 1 6000)) 2000 2000 2000]"

definition on_time_history :: "action list" where
  "on_time_history =
     first_pulse_history @ [SocketMessage (IsPulse (pulse_at 1 6000)) 1000 1000 1000]"







section \<open>Frame codec: the three-tier length\<close>

lemma unat_byte_of_nat: "unat (word_of_nat n :: byte) = n mod 256"
  by (simp add: unat_of_nat)

lemma unat_byte_of_drop:
  "unat (ucast (drop_bit k (word_of_nat n :: 64 word)) :: byte) = (n mod 2 ^ 64) div 2 ^ k mod 256"
proof -
  have "unat (ucast (drop_bit k (word_of_nat n :: 64 word)) :: byte)
        = take_bit 8 (drop_bit k (unat (word_of_nat n :: 64 word)))"
    by (simp only: unsigned_ucast_eq unat_drop_bit_eq) simp
  also have "\<dots> = (n mod 2 ^ 64) div 2 ^ k mod 256"
    by (simp add: unat_of_nat take_bit_eq_mod drop_bit_eq_div)
  finally show ?thesis .
qed

lemma unat_byte_of_ucast: "unat (ucast (word_of_nat n :: 64 word) :: byte) = (n mod 2 ^ 64) mod 256"
  by (simp add: unsigned_ucast_eq unat_of_nat take_bit_eq_mod)

lemma be_nat_two: "n \<le> 65535 \<Longrightarrow> be_nat [word_of_nat (drop_bit 8 n), word_of_nat n] = n"
  by (simp add: be_nat_def unat_byte_of_nat drop_bit_eq_div)

lemma digit_step: "(x div 2 ^ (k + 8)) * 256 + x div 2 ^ k mod 256 = x div 2 ^ k" for x :: nat
proof -
  have "x div 2 ^ (k + 8) = (x div 2 ^ k) div 256"
    by (simp add: power_add div_mult2_eq)
  then show ?thesis by simp
qed

lemma be_nat_eight:
  assumes "n < 2 ^ 64"
  shows "be_nat [ucast (drop_bit 56 (word_of_nat n :: 64 word)),
            ucast (drop_bit 48 (word_of_nat n :: 64 word)),
            ucast (drop_bit 40 (word_of_nat n :: 64 word)),
            ucast (drop_bit 32 (word_of_nat n :: 64 word)),
            ucast (drop_bit 24 (word_of_nat n :: 64 word)),
            ucast (drop_bit 16 (word_of_nat n :: 64 word)),
            ucast (drop_bit 8 (word_of_nat n :: 64 word)),
            ucast (word_of_nat n :: 64 word)] = n"
proof -
  have m: "n mod 2 ^ 64 = n" using assms by simp
  have top: "n div 2 ^ 56 mod 256 = n div 2 ^ 56"
    using assms by (simp add: less_mult_imp_div_less)
  have s48: "(n div 2 ^ 56) * 256 + n div 2 ^ 48 mod 256 = n div 2 ^ 48"
    using digit_step [of n 48] by simp
  have s40: "(n div 2 ^ 48) * 256 + n div 2 ^ 40 mod 256 = n div 2 ^ 40"
    using digit_step [of n 40] by simp
  have s32: "(n div 2 ^ 40) * 256 + n div 2 ^ 32 mod 256 = n div 2 ^ 32"
    using digit_step [of n 32] by simp
  have s24: "(n div 2 ^ 32) * 256 + n div 2 ^ 24 mod 256 = n div 2 ^ 24"
    using digit_step [of n 24] by simp
  have s16: "(n div 2 ^ 24) * 256 + n div 2 ^ 16 mod 256 = n div 2 ^ 16"
    using digit_step [of n 16] by simp
  have s8: "(n div 2 ^ 16) * 256 + n div 2 ^ 8 mod 256 = n div 2 ^ 8"
    using digit_step [of n 8] by simp
  have s0: "(n div 2 ^ 8) * 256 + n mod 256 = n"
    using digit_step [of n 0] by simp
  show ?thesis
    unfolding be_nat_def foldl.simps unat_byte_of_drop unat_byte_of_ucast m
    by (simp only: top s48 s40 s32 s24 s16 s8 s0 mult_0 add_0)
qed

text \<open>
  Claim C6. The frame is the byte \<open>0x81\<close>, then the length, then the payload. A payload
  shorter than 126 bytes has its length in one byte. A payload of 126 to 65535 bytes has the
  byte 126 and then its length in two bytes, most significant first. A longer payload has
  the byte 127 and then its length in eight bytes, most significant first. (A Go slice is
  shorter than \<open>2 ^ 63\<close> bytes.)
\<close>

theorem writeText_three_tier_length:
  "(length payload < 126 \<longrightarrow>
      encode_frame payload = [0x81, word_of_nat (length payload)] @ payload
      \<and> be_nat [word_of_nat (length payload)] = length payload)
   \<and> (126 \<le> length payload \<and> length payload \<le> 65535 \<longrightarrow>
      take 2 (encode_frame payload) = [0x81, 126]
      \<and> be_nat (take 2 (drop 2 (encode_frame payload))) = length payload
      \<and> drop 4 (encode_frame payload) = payload)
   \<and> (65535 < length payload \<and> length payload < 2 ^ 63 \<longrightarrow>
      take 2 (encode_frame payload) = [0x81, 127]
      \<and> be_nat (take 8 (drop 2 (encode_frame payload))) = length payload
      \<and> drop 10 (encode_frame payload) = payload)"
proof (intro conjI impI)
  assume "length payload < 126"
  then show "encode_frame payload = [0x81, word_of_nat (length payload)] @ payload"
    by (simp add: encode_frame_def length_prefix_def finAndText_def)
  from \<open>length payload < 126\<close> show "be_nat [word_of_nat (length payload)] = length payload"
    by (simp add: be_nat_def unat_byte_of_nat)
next
  assume mid: "126 \<le> length payload \<and> length payload \<le> 65535"
  then have f: "encode_frame payload =
      [0x81, 126, word_of_nat (drop_bit 8 (length payload)), word_of_nat (length payload)] @ payload"
    by (simp add: encode_frame_def length_prefix_def finAndText_def)
  show "take 2 (encode_frame payload) = [0x81, 126]" by (simp add: f)
  show "be_nat (take 2 (drop 2 (encode_frame payload))) = length payload"
    using mid by (simp add: f be_nat_two)
  show "drop 4 (encode_frame payload) = payload" by (simp add: f)
next
  assume big: "65535 < length payload \<and> length payload < 2 ^ 63"
  then have lt: "length payload < 2 ^ 64" by simp
  from big have f: "encode_frame payload = 0x81 # length_prefix (length payload) @ payload"
    and g: "length_prefix (length payload) = [127,
            ucast (drop_bit 56 (word_of_nat (length payload) :: 64 word)),
            ucast (drop_bit 48 (word_of_nat (length payload) :: 64 word)),
            ucast (drop_bit 40 (word_of_nat (length payload) :: 64 word)),
            ucast (drop_bit 32 (word_of_nat (length payload) :: 64 word)),
            ucast (drop_bit 24 (word_of_nat (length payload) :: 64 word)),
            ucast (drop_bit 16 (word_of_nat (length payload) :: 64 word)),
            ucast (drop_bit 8 (word_of_nat (length payload) :: 64 word)),
            ucast (word_of_nat (length payload) :: 64 word)]"
    by (simp_all add: encode_frame_def length_prefix_def finAndText_def)
  show "take 2 (encode_frame payload) = [0x81, 127]" by (simp add: f g)
  show "be_nat (take 8 (drop 2 (encode_frame payload))) = length payload"
    by (simp add: f g be_nat_eight [OF lt])
  show "drop 10 (encode_frame payload) = payload" by (simp add: f g)
qed

theorem writeText_three_tier_length_witness:
  "encode_frame (replicate 125 7) = [0x81, 125] @ replicate 125 7
   \<and> take 2 (encode_frame (replicate 126 7)) = [0x81, 126]
   \<and> be_nat (take 2 (drop 2 (encode_frame (replicate 126 7)))) = 126
   \<and> take 2 (encode_frame (replicate 65536 7)) = [0x81, 127]
   \<and> be_nat (take 8 (drop 2 (encode_frame (replicate 65536 7)))) = 65536
   \<and> drop 10 (encode_frame (replicate 65536 7)) = replicate 65536 7"
  using writeText_three_tier_length [of "replicate 125 7"]
        writeText_three_tier_length [of "replicate 126 7"]
        writeText_three_tier_length [of "replicate 65536 7"]
  by simp


section \<open>Hub: broadcast\<close>

lemma write_all_conns:
  "conns (write_all wfail cs data h) = conns h - {c \<in> set cs. wfail c}"
  by (induction cs arbitrary: h) (auto simp: writeText_def remove_def)

lemma write_all_closed:
  "closed (write_all wfail cs data h) = closed h \<union> {c \<in> set cs. wfail c}"
  by (induction cs arbitrary: h) (auto simp: writeText_def remove_def)

lemma write_all_sent:
  "distinct cs \<Longrightarrow>
   sent (write_all wfail cs data h) c =
     (if c \<in> set cs \<and> \<not> wfail c then sent h c @ [encode_frame data] else sent h c)"
  by (induction cs arbitrary: h) (auto simp: writeText_def remove_def)

text \<open>
  Claim C5. When a broadcast has serialized its message and taken its snapshot, the hub
  afterwards holds the former members without those whose write failed. A snapshot member
  whose write failed is out of the hub and closed; every other snapshot member is still in
  the hub and has the frame of the message appended to what it had received, whatever
  happened to the others.
\<close>

theorem broadcastJSON_delivers_or_removes:
  assumes "is_snapshot snapshot h"
  shows "conns (broadcastJSON wfail snapshot (Some data) h) = conns h - {c \<in> conns h. wfail c}
    \<and> (\<forall>c \<in> conns h.
          if wfail c
          then c \<notin> conns (broadcastJSON wfail snapshot (Some data) h)
               \<and> c \<in> closed (broadcastJSON wfail snapshot (Some data) h)
          else c \<in> conns (broadcastJSON wfail snapshot (Some data) h)
               \<and> sent (broadcastJSON wfail snapshot (Some data) h) c = sent h c @ [encode_frame data])"
proof -
  from assms have s: "set snapshot = conns h" and d: "distinct snapshot"
    by (simp_all add: is_snapshot_def)
  show ?thesis
    by (simp add: broadcastJSON_def write_all_conns write_all_closed write_all_sent [OF d] s)
qed

theorem broadcastJSON_delivers_or_removes_witness:
  "is_snapshot [3, 1, 2] three_conns
   \<and> conns (broadcastJSON (\<lambda>c. c = 1) [3, 1, 2] (Some [0x7B, 0x7D]) three_conns) = {2, 3}
   \<and> sent (broadcastJSON (\<lambda>c. c = 1) [3, 1, 2] (Some [0x7B, 0x7D]) three_conns) 2 = [[0x81, 2, 0x7B, 0x7D]]
   \<and> sent (broadcastJSON (\<lambda>c. c = 1) [3, 1, 2] (Some [0x7B, 0x7D]) three_conns) 3 = [[0x81, 2, 0x7B, 0x7D]]
   \<and> 1 \<in> closed (broadcastJSON (\<lambda>c. c = 1) [3, 1, 2] (Some [0x7B, 0x7D]) three_conns)"
proof -
  have snap: "is_snapshot [3, 1, 2] three_conns"
    by (auto simp: is_snapshot_def three_conns_def)
  have fr: "encode_frame [0x7B, 0x7D] = [0x81, 2, 0x7B, 0x7D]"
    by (simp add: encode_frame_def length_prefix_def finAndText_def)
  have cs: "conns three_conns = {1, 2, 3}" and st: "sent three_conns = (\<lambda>_. [])"
    by (simp_all add: three_conns_def)
  from broadcastJSON_delivers_or_removes [OF snap, of "\<lambda>c. c = 1" "[0x7B, 0x7D]"]
  show ?thesis using snap by (auto simp: cs st fr)
qed


section \<open>Scheduler: what the emitted times say\<close>

lemma pulse_loop_Nil: "pulse_loop period periodMS sq nxt [] = []"
  by (subst pulse_loop.simps) simp

lemma pulse_loop_single: "pulse_loop period periodMS sq nxt [c] = []"
  by (subst pulse_loop.simps) simp

lemma pulse_loop_tick:
  "pulse_loop period periodMS sq nxt (sleepRead # now # rest) =
     \<lparr>due = nxt,
      msg = \<lparr>Type = ''pulse'', Seq = sq, PeriodMS = periodMS,
             NowMS = UnixMilli now, NextMS = UnixMilli (nxt + period)\<rparr>\<rparr>
     # (case catch_up period (nxt + period) rest of
          Some (nxt', rest') \<Rightarrow> pulse_loop period periodMS (sq + 1) nxt' rest'
        | None \<Rightarrow> [])"
  by (subst pulse_loop.simps) simp

lemma catch_up_spec:
  "catch_up P nxt cs = Some (nxt', cs') \<Longrightarrow>
     \<exists>c. nxt' = nxt + int c * P \<and> c < length cs \<and> cs' = drop (Suc c) cs \<and> cs ! c < nxt'"
proof (induction cs arbitrary: nxt)
  case Nil
  then show ?case by simp
next
  case (Cons x cs)
  show ?case
  proof (cases "nxt - x \<le> 0")
    case True
    with Cons.prems have "catch_up P (nxt + P) cs = Some (nxt', cs')" by simp
    from Cons.IH [OF this] obtain c where
      c: "nxt' = nxt + P + int c * P" "c < length cs" "cs' = drop (Suc c) cs" "cs ! c < nxt'"
      by blast
    have "nxt' = nxt + int (Suc c) * P" using c(1) by (simp add: algebra_simps)
    with c show ?thesis by (intro exI [of _ "Suc c"]) simp
  next
    case False
    with Cons.prems have "nxt' = nxt" "cs' = cs" by simp_all
    with False show ?thesis by (intro exI [of _ 0]) simp
  qed
qed

lemma pulse_loop_nonempty:
  "j < length (pulse_loop P pm sq nxt cl) \<Longrightarrow> \<exists>sleepRead now rest. cl = sleepRead # now # rest"
  by (cases cl; cases "tl cl") (auto simp: pulse_loop_Nil pulse_loop_single)

lemma pulse_loop_nth:
  assumes "clock = pre @ cl" and "Suc (length pre) = k + 2 * i"
    and "j < length (pulse_loop P pm (of_nat i) (start + int k * P) cl)"
  shows "\<exists>k'. k + j \<le> k' \<and> (j = 0 \<longrightarrow> k' = k)
      \<and> due (pulse_loop P pm (of_nat i) (start + int k * P) cl ! j) = start + int k' * P
      \<and> (0 < j \<longrightarrow> clock ! (k' + 2 * (i + j) - 2)
                     < due (pulse_loop P pm (of_nat i) (start + int k * P) cl ! j))
      \<and> Seq (msg (pulse_loop P pm (of_nat i) (start + int k * P) cl ! j)) = of_nat (i + j)
      \<and> PeriodMS (msg (pulse_loop P pm (of_nat i) (start + int k * P) cl ! j)) = pm
      \<and> k' + 2 * (i + j) < length clock
      \<and> NowMS (msg (pulse_loop P pm (of_nat i) (start + int k * P) cl ! j))
          = UnixMilli (clock ! (k' + 2 * (i + j)))
      \<and> NextMS (msg (pulse_loop P pm (of_nat i) (start + int k * P) cl ! j))
          = UnixMilli (due (pulse_loop P pm (of_nat i) (start + int k * P) cl ! j) + P)"
  using assms
proof (induction j arbitrary: pre cl k i)
  case 0
  from pulse_loop_nonempty [OF "0.prems"(3)] obtain sleepRead now rest
    where cl: "cl = sleepRead # now # rest" by blast
  have pos: "clock ! (k + 2 * i) = now" "k + 2 * i < length clock"
    using "0.prems"(1,2) cl by (simp_all add: nth_append flip: "0.prems"(2))
  show ?case
    by (intro exI [of _ k]) (simp add: cl pulse_loop_tick pos)
next
  case (Suc j)
  from pulse_loop_nonempty [OF Suc.prems(3)] obtain sleepRead now rest
    where cl: "cl = sleepRead # now # rest" by blast
  let ?nxt = "start + int k * P"
  from Suc.prems(3) cl obtain nxt' rest' where
    cu: "catch_up P (?nxt + P) rest = Some (nxt', rest')"
    by (cases "catch_up P (?nxt + P) rest") (auto simp: pulse_loop_tick)
  from catch_up_spec [OF cu] obtain c where
    c: "nxt' = ?nxt + P + int c * P" "c < length rest" "rest' = drop (Suc c) rest" "rest ! c < nxt'"
    by blast
  let ?k = "k + 1 + c"
  have nxt': "nxt' = start + int ?k * P" using c(1) by (simp add: algebra_simps)
  have unfold: "pulse_loop P pm (of_nat i) ?nxt cl
      = \<lparr>due = ?nxt, msg = \<lparr>Type = ''pulse'', Seq = of_nat i, PeriodMS = pm,
             NowMS = UnixMilli now, NextMS = UnixMilli (?nxt + P)\<rparr>\<rparr>
        # pulse_loop P pm (of_nat (Suc i)) (start + int ?k * P) rest'"
    using cu by (simp add: cl pulse_loop_tick nxt' add.commute)
  have nth: "pulse_loop P pm (of_nat i) ?nxt cl ! Suc j
      = pulse_loop P pm (of_nat (Suc i)) (start + int ?k * P) rest' ! j"
    by (simp only: unfold nth_Cons_Suc)
  have len: "j < length (pulse_loop P pm (of_nat (Suc i)) (start + int ?k * P) rest')"
    using Suc.prems(3) by (simp only: unfold) simp
  let ?pre = "pre @ sleepRead # now # take (Suc c) rest"
  have split: "clock = ?pre @ rest'"
    using Suc.prems(1) cl c(3) by simp
  have lpre: "Suc (length ?pre) = ?k + 2 * Suc i"
    using Suc.prems(2) c(2) by simp
  from Suc.IH [OF split lpre len] obtain k' where
    k': "?k + j \<le> k'" "j = 0 \<longrightarrow> k' = ?k"
      "due (pulse_loop P pm (of_nat (Suc i)) (start + int ?k * P) rest' ! j) = start + int k' * P"
      "0 < j \<longrightarrow> clock ! (k' + 2 * (Suc i + j) - 2)
                     < due (pulse_loop P pm (of_nat (Suc i)) (start + int ?k * P) rest' ! j)"
      "Seq (msg (pulse_loop P pm (of_nat (Suc i)) (start + int ?k * P) rest' ! j)) = of_nat (Suc i + j)"
      "PeriodMS (msg (pulse_loop P pm (of_nat (Suc i)) (start + int ?k * P) rest' ! j)) = pm"
      "k' + 2 * (Suc i + j) < length clock"
      "NowMS (msg (pulse_loop P pm (of_nat (Suc i)) (start + int ?k * P) rest' ! j))
          = UnixMilli (clock ! (k' + 2 * (Suc i + j)))"
      "NextMS (msg (pulse_loop P pm (of_nat (Suc i)) (start + int ?k * P) rest' ! j))
          = UnixMilli (due (pulse_loop P pm (of_nat (Suc i)) (start + int ?k * P) rest' ! j) + P)"
    by blast
  have exitread: "clock ! (k' + 2 * (i + Suc j) - 2)
        < due (pulse_loop P pm (of_nat (Suc i)) (start + int ?k * P) rest' ! j)"
  proof (cases "j = 0")
    case True
    with k'(2) have "k' = ?k" by simp
    with True Suc.prems(2) have idx: "k' + 2 * (i + Suc j) - 2 = length pre + 2 + c"
      by simp
    have rd: "clock ! (length pre + 2 + c) = rest ! c"
      using Suc.prems(1) cl by (simp add: nth_append)
    have "due (pulse_loop P pm (of_nat (Suc i)) (start + int ?k * P) rest' ! j) = nxt'"
      using k'(3) \<open>k' = ?k\<close> nxt' by simp
    with c(4) show ?thesis by (simp only: idx rd)
  next
    case False
    with k'(4) show ?thesis by simp
  qed
  show ?case
    unfolding nth
    using k' exitread by (intro exI [of _ k']) simp
qed


lemma UnixMilli_add_ms: "UnixMilli (t + ms * Millisecond) = UnixMilli t + ms"
  by (simp add: UnixMilli_def Millisecond_def)

lemma Milliseconds_whole: "0 < ms \<Longrightarrow> Milliseconds (ms * Millisecond) = ms"
  by (simp add: Milliseconds_def Millisecond_def)

lemma late_wakeup_run:
  "startPulseLoop (1000 * Millisecond) late_wakeup_clock =
     [\<lparr>due = 0, msg = \<lparr>Type = ''pulse'', Seq = 0, PeriodMS = 1000, NowMS = 0, NextMS = 1000\<rparr>\<rparr>,
      \<lparr>due = 1000000000,
       msg = \<lparr>Type = ''pulse'', Seq = 1, PeriodMS = 1000, NowMS = 1002, NextMS = 2000\<rparr>\<rparr>]"
  by (simp add: startPulseLoop_def late_wakeup_clock_def pulse_loop_tick Millisecond_def
      Milliseconds_def UnixMilli_def)

lemma parsePeriodMS_whole:
  assumes "0 < ms" and "ms \<le> 9223372036854"
  shows "parsePeriodMS (Some ms) = ms * Millisecond"
proof -
  have "(word_of_int ms * word_of_int 1000000 :: 64 word) = word_of_int (ms * 1000000)"
    by simp
  moreover have "sint (word_of_int (ms * 1000000) :: 64 word) = ms * 1000000"
    unfolding sint_sbintrunc'
    using assms by (intro signed_take_bit_int_eq_self) simp_all
  ultimately show ?thesis using assms by (simp add: parsePeriodMS_def Millisecond_def)
qed

lemma parsePeriodMS_wraps: "parsePeriodMS (Some 9223372036855) = - 9223372036854551616"
  by (simp add: parsePeriodMS_def Millisecond_def)

lemma startPulseLoop_whole_ms:
  assumes "0 < ms"
  shows "startPulseLoop (ms * Millisecond) (start # now # rest) =
     \<lparr>due = start,
      msg = \<lparr>Type = ''pulse'', Seq = 0, PeriodMS = ms,
             NowMS = UnixMilli now, NextMS = UnixMilli (start + ms * Millisecond)\<rparr>\<rparr>
     # pulse_loop (ms * Millisecond) ms (of_nat 1) (start + int 1 * (ms * Millisecond)) rest"
proof -
  from assms have "\<not> ms * Millisecond \<le> 0" by (simp add: Millisecond_def)
  then show ?thesis
    using assms by (simp add: startPulseLoop_def Let_def Milliseconds_whole)
qed

lemma startPulseLoop_nonempty:
  "i < length (startPulseLoop period clock) \<Longrightarrow> \<exists>start now rest. clock = start # now # rest"
  by (cases clock; cases "tl clock") (auto simp: startPulseLoop_def Let_def)

text \<open>
  Claim C1, as the code has it. The period is a whole number \<open>ms\<close> of milliseconds (what
  \<open>parsePeriodMS\<close> yields up to \<open>PULSE_PERIOD_MS=9223372036854\<close>). Message number \<open>i\<close>
  of a run carries \<open>seq = i\<close> and \<open>period_ms = ms\<close>. It is due at the first clock reading
  plus \<open>k\<close> periods, where \<open>k = i\<close> for the immediate message and the first tick and
  \<open>k \<ge> i\<close> afterwards, the due instant then being later than the clock reading that ended
  the iteration before. Its \<open>now_ms\<close> is the millisecond of the clock reading taken for it:
  the second reading for the immediate message, reading number \<open>k + 2 i\<close> (counted from 0)
  for a tick. When that reading is less than one period past the due instant, \<open>next_ms\<close> is
  the millisecond of the due instant plus \<open>ms\<close>, so \<open>next_ms - now_ms\<close> is \<open>period_ms\<close>
  less the milliseconds by which the reading is past the due instant: equal to \<open>period_ms\<close>
  when the message goes out in the millisecond it was due, smaller when it goes out late.
\<close>

theorem emitted_times_follow_clock_and_schedule:
  assumes "0 < ms" and "i < length (startPulseLoop (ms * Millisecond) clock)"
  shows "\<exists>k. i \<le> k \<and> (i \<le> 1 \<longrightarrow> k = i)
      \<and> due (startPulseLoop (ms * Millisecond) clock ! i) = clock ! 0 + int k * (ms * Millisecond)
      \<and> (2 \<le> i \<longrightarrow> clock ! (k + 2 * i - 2) < due (startPulseLoop (ms * Millisecond) clock ! i))
      \<and> Seq (msg (startPulseLoop (ms * Millisecond) clock ! i)) = of_nat i
      \<and> PeriodMS (msg (startPulseLoop (ms * Millisecond) clock ! i)) = ms
      \<and> (if i = 0 then 1 else k + 2 * i) < length clock
      \<and> NowMS (msg (startPulseLoop (ms * Millisecond) clock ! i))
          = UnixMilli (clock ! (if i = 0 then 1 else k + 2 * i))
      \<and> (clock ! (if i = 0 then 1 else k + 2 * i)
            < due (startPulseLoop (ms * Millisecond) clock ! i) + ms * Millisecond \<longrightarrow>
          NextMS (msg (startPulseLoop (ms * Millisecond) clock ! i))
            = UnixMilli (due (startPulseLoop (ms * Millisecond) clock ! i)) + ms
          \<and> NextMS (msg (startPulseLoop (ms * Millisecond) clock ! i))
              - NowMS (msg (startPulseLoop (ms * Millisecond) clock ! i))
            = ms - (UnixMilli (clock ! (if i = 0 then 1 else k + 2 * i))
                    - UnixMilli (due (startPulseLoop (ms * Millisecond) clock ! i))))"
proof -
  from startPulseLoop_nonempty [OF assms(2)] obtain start now rest
    where clock: "clock = start # now # rest" by blast
  note run = startPulseLoop_whole_ms [OF assms(1), of start now rest]
  show ?thesis
  proof (cases i)
    case 0
    show ?thesis
      by (intro exI [of _ 0]) (simp add: 0 clock run UnixMilli_add_ms)
  next
    case (Suc j)
    let ?loop = "pulse_loop (ms * Millisecond) ms (of_nat 1) (start + int 1 * (ms * Millisecond)) rest"
    have nth: "startPulseLoop (ms * Millisecond) clock ! i = ?loop ! j"
      by (simp only: clock run Suc nth_Cons_Suc)
    have len: "j < length ?loop"
      using assms(2) by (simp only: clock run Suc) simp
    have split: "clock = [start, now] @ rest" by (simp add: clock)
    have lpre: "Suc (length [start, now]) = 1 + 2 * 1" by simp
    from pulse_loop_nth [OF split lpre len] obtain k where
      k: "1 + j \<le> k" "j = 0 \<longrightarrow> k = 1"
        "due (?loop ! j) = start + int k * (ms * Millisecond)"
        "0 < j \<longrightarrow> clock ! (k + 2 * (1 + j) - 2) < due (?loop ! j)"
        "Seq (msg (?loop ! j)) = of_nat (1 + j)"
        "PeriodMS (msg (?loop ! j)) = ms"
        "k + 2 * (1 + j) < length clock"
        "NowMS (msg (?loop ! j)) = UnixMilli (clock ! (k + 2 * (1 + j)))"
        "NextMS (msg (?loop ! j)) = UnixMilli (due (?loop ! j) + ms * Millisecond)"
      by blast
    have start: "clock ! 0 = start" by (simp add: clock)
    show ?thesis
      unfolding nth
      using k by (intro exI [of _ k]) (auto simp: Suc start UnixMilli_add_ms)
  qed
qed

theorem emitted_times_follow_clock_and_schedule_witness:
  "(0::int) < 1000
   \<and> 1 < length (startPulseLoop (1000 * Millisecond) late_wakeup_clock)
   \<and> late_wakeup_clock ! 3 < due (startPulseLoop (1000 * Millisecond) late_wakeup_clock ! 1) + 1000 * Millisecond
   \<and> NowMS (msg (startPulseLoop (1000 * Millisecond) late_wakeup_clock ! 1))
        = UnixMilli (late_wakeup_clock ! 3)
   \<and> NextMS (msg (startPulseLoop (1000 * Millisecond) late_wakeup_clock ! 1))
      - NowMS (msg (startPulseLoop (1000 * Millisecond) late_wakeup_clock ! 1)) = 1000 - 2"
proof -
  have pos: "(0::int) < 1000" by simp
  have len: "1 < length (startPulseLoop (1000 * Millisecond) late_wakeup_clock)"
    by (simp add: late_wakeup_run)
  have d: "due (startPulseLoop (1000 * Millisecond) late_wakeup_clock ! 1) = 1000000000"
    by (simp add: late_wakeup_run)
  have r: "late_wakeup_clock ! 3 = 1002000000" "late_wakeup_clock ! 0 = 0"
    by (simp_all add: late_wakeup_clock_def)
  from emitted_times_follow_clock_and_schedule [OF pos len] obtain k where
    k: "(1::nat) \<le> 1 \<longrightarrow> k = 1"
      "NowMS (msg (startPulseLoop (1000 * Millisecond) late_wakeup_clock ! 1))
          = UnixMilli (late_wakeup_clock ! (if (1::nat) = 0 then 1 else k + 2 * 1))"
      "late_wakeup_clock ! (if (1::nat) = 0 then 1 else k + 2 * 1)
            < due (startPulseLoop (1000 * Millisecond) late_wakeup_clock ! 1) + 1000 * Millisecond \<longrightarrow>
          NextMS (msg (startPulseLoop (1000 * Millisecond) late_wakeup_clock ! 1))
              - NowMS (msg (startPulseLoop (1000 * Millisecond) late_wakeup_clock ! 1))
            = 1000 - (UnixMilli (late_wakeup_clock ! (if (1::nat) = 0 then 1 else k + 2 * 1))
                    - UnixMilli (due (startPulseLoop (1000 * Millisecond) late_wakeup_clock ! 1)))"
    by blast
  from k(1) have k1: "k = 1" by simp
  have three: "(if (1::nat) = 0 then 1 else k + 2 * 1) = 3" using k1 by simp
  have lt: "late_wakeup_clock ! 3 < due (startPulseLoop (1000 * Millisecond) late_wakeup_clock ! 1) + 1000 * Millisecond"
    unfolding d r by (simp add: Millisecond_def)
  from k(2,3) lt len show ?thesis
    unfolding three d r by (simp add: UnixMilli_def Millisecond_def)
qed

text \<open>
  Claim C1 as stated fails: with a period of one second and a sleep that ends 2 ms after the
  deadline, the first tick carries \<open>now_ms = 1002\<close> and \<open>next_ms = 2000\<close>, a difference of
  998 against a \<open>period_ms\<close> of 1000.
\<close>

theorem late_wakeup_difference_not_period:
  "NextMS (msg (startPulseLoop (1000 * Millisecond) late_wakeup_clock ! 1))
     - NowMS (msg (startPulseLoop (1000 * Millisecond) late_wakeup_clock ! 1))
   \<noteq> PeriodMS (msg (startPulseLoop (1000 * Millisecond) late_wakeup_clock ! 1))"
  by (simp add: late_wakeup_run)

text \<open>
  Claim C3 at a stalled wake-up. The period is one second; the sleep before the first tick
  ends 1.5 s after the deadline. The tick then carries \<open>now_ms = 2500\<close> and
  \<open>next_ms = 2000\<close>: a \<open>next_ms\<close> in the past. The fast-forward of \<open>next\<close> runs only after the
  broadcast.
\<close>

theorem stalled_wakeup_emits_past_next_ms:
  "NowMS (msg (startPulseLoop (1000 * Millisecond) stalled_clock ! 1)) = 2500
   \<and> NextMS (msg (startPulseLoop (1000 * Millisecond) stalled_clock ! 1)) = 2000"
  by (simp add: startPulseLoop_def stalled_clock_def pulse_loop_tick Millisecond_def
      Milliseconds_def UnixMilli_def)


section \<open>Client: what the handlers keep\<close>

lemma disconnect_fields [simp]:
  "locked (disconnect p s) = locked s"
  "recentStability (disconnect p s) = recentStability s"
  "stableCount (disconnect p s) = stableCount s"
  "lockOriginMonoMs (disconnect p s) = lockOriginMonoMs s"
  "lockOriginServerMs (disconnect p s) = lockOriginServerMs s"
  "lastPulse (disconnect p s) = lastPulse s"
  "lastPredictedArrivalMono (disconnect p s) = lastPredictedArrivalMono s"
  by (simp_all add: disconnect_def)

lemma captureLockOrigin_fields [simp]:
  "locked (captureLockOrigin a s) = locked s"
  "recentStability (captureLockOrigin a s) = recentStability s"
  "stableCount (captureLockOrigin a s) = stableCount s"
  "lastPulse (captureLockOrigin a s) = lastPulse s"
  by (simp_all add: captureLockOrigin_def split: option.splits)

lemma clearLockOrigin_fields [simp]:
  "locked (clearLockOrigin s) = locked s"
  "recentStability (clearLockOrigin s) = recentStability s"
  "stableCount (clearLockOrigin s) = stableCount s"
  "lastPulse (clearLockOrigin s) = lastPulse s"
  "lockOriginMonoMs (clearLockOrigin s) = None"
  "lockOriginServerMs (clearLockOrigin s) = None"
  by (simp_all add: clearLockOrigin_def)

lemma updateStability_fields [simp]:
  "locked (updateStability cfg e s) = locked s"
  "lastPulse (updateStability cfg e s) = lastPulse s"
  "lockOriginMonoMs (updateStability cfg e s) = lockOriginMonoMs s"
  "lockOriginServerMs (updateStability cfg e s) = lockOriginServerMs s"
  by (simp_all add: updateStability_def Let_def split: option.splits)

lemma on_close_fields:
  "locked (fst (on_close s)) = (preserveStateOnClose s \<and> locked s)"
  "recentStability (fst (on_close s)) = (if preserveStateOnClose s then recentStability s else [])"
  "stableCount (fst (on_close s)) = (if preserveStateOnClose s then stableCount s else 0)"
  "lockOriginMonoMs (fst (on_close s)) = (if preserveStateOnClose s then lockOriginMonoMs s else None)"
  "lockOriginServerMs (fst (on_close s)) = (if preserveStateOnClose s then lockOriginServerMs s else None)"
  "lastPredictedArrivalMono (fst (on_close s)) = lastPredictedArrivalMono s"
  "lastPulse (fst (on_close s)) = lastPulse s"
  by (simp_all add: on_close_def Let_def clearLockOrigin_def)

lemma run_Cons_fst: "fst (run cfg (a # as) s) = fst (run cfg as (fst (step cfg a s)))"
  by (simp split: prod.splits)

lemma handlePulse_lock_decision:
  "\<not> (stickyLock cfg \<and> locked s) \<Longrightarrow>
   locked (fst (handlePulse cfg a p e pulse s))
     = lock_decision cfg (fst (handlePulse cfg a p e pulse s))"
  by (simp add: handlePulse_def Let_def lock_decision_def)

lemma handlePulse_origin:
  "(locked s \<longrightarrow> lockOriginMonoMs s \<noteq> None \<and> lockOriginServerMs s \<noteq> None) \<Longrightarrow>
   locked (fst (handlePulse cfg a p e pulse s)) \<Longrightarrow>
   lockOriginMonoMs (fst (handlePulse cfg a p e pulse s)) \<noteq> None
   \<and> lockOriginServerMs (fst (handlePulse cfg a p e pulse s)) \<noteq> None"
  by (cases "lastPredictedArrivalMono s")
     (auto simp: handlePulse_def Let_def captureLockOrigin_def disconnect_def split: if_splits)

lemma step_origin:
  assumes "locked s \<longrightarrow> lockOriginMonoMs s \<noteq> None \<and> lockOriginServerMs s \<noteq> None"
    and "locked (fst (step cfg a s))"
  shows "lockOriginMonoMs (fst (step cfg a s)) \<noteq> None
         \<and> lockOriginServerMs (fst (step cfg a s)) \<noteq> None"
proof (cases a)
  case Connect
  with assms show ?thesis by (simp add: connect_def split: if_splits)
next
  case (Disconnect preserveLock)
  with assms show ?thesis by simp
next
  case SocketOpen
  with assms show ?thesis by (simp add: on_open_def)
next
  case SocketClose
  with assms show ?thesis by (simp add: on_close_fields split: if_splits)
next
  case (SocketMessage data arrival nowProj nowElapsed)
  show ?thesis
  proof (cases data)
    case (IsPulse pulse)
    with SocketMessage assms handlePulse_origin [of s cfg arrival nowProj nowElapsed pulse]
    show ?thesis by (simp add: on_message_def)
  qed (use SocketMessage assms in \<open>simp_all add: on_message_def\<close>)
qed

lemma run_origin:
  "(locked s \<longrightarrow> lockOriginMonoMs s \<noteq> None \<and> lockOriginServerMs s \<noteq> None) \<Longrightarrow>
   locked (fst (run cfg as s)) \<Longrightarrow>
   lockOriginMonoMs (fst (run cfg as s)) \<noteq> None \<and> lockOriginServerMs (fst (run cfg as s)) \<noteq> None"
proof (induction as arbitrary: s)
  case Nil
  then show ?case by simp
next
  case (Cons a as)
  have a: "locked (fst (step cfg a s)) \<longrightarrow>
        lockOriginMonoMs (fst (step cfg a s)) \<noteq> None \<and> lockOriginServerMs (fst (step cfg a s)) \<noteq> None"
    using step_origin [OF Cons.prems(1)] by blast
  have b: "locked (fst (run cfg as (fst (step cfg a s))))"
    using Cons.prems(2) unfolding run_Cons_fst .
  show ?case unfolding run_Cons_fst by (rule Cons.IH [OF a b])
qed

lemma constructor_required: "1 \<le> requiredStablePulses (constructor opts)"
  by (simp add: constructor_def)

lemma step_lock_decision:
  assumes "1 \<le> requiredStablePulses cfg" and "locked s = lock_decision cfg s"
  shows "locked (fst (step cfg a s)) = lock_decision cfg (fst (step cfg a s))"
proof (cases a)
  case Connect
  with assms show ?thesis by (simp add: connect_def lock_decision_def)
next
  case (Disconnect preserveLock)
  with assms show ?thesis by (simp add: lock_decision_def)
next
  case SocketOpen
  with assms show ?thesis by (simp add: on_open_def lock_decision_def)
next
  case SocketClose
  with assms show ?thesis by (auto simp: on_close_fields lock_decision_def)
next
  case (SocketMessage data arrival nowProj nowElapsed)
  show ?thesis
  proof (cases data)
    case (IsPulse pulse)
    show ?thesis
    proof (cases "stickyLock cfg \<and> locked s")
      case True
      with IsPulse SocketMessage assms show ?thesis
        by (simp add: on_message_def handlePulse_def)
    next
      case False
      from handlePulse_lock_decision [OF False] IsPulse SocketMessage show ?thesis
        by (simp add: on_message_def)
    qed
  qed (use SocketMessage assms in \<open>simp_all add: on_message_def\<close>)
qed

lemma run_lock_decision:
  "1 \<le> requiredStablePulses cfg \<Longrightarrow> locked s = lock_decision cfg s \<Longrightarrow>
   locked (fst (run cfg as s)) = lock_decision cfg (fst (run cfg as s))"
proof (induction as arbitrary: s)
  case Nil
  then show ?case by simp
next
  case (Cons a as)
  from Cons.IH [OF Cons.prems(1) step_lock_decision [OF Cons.prems]]
  show ?case by (simp only: run_Cons_fst)
qed


section \<open>Client: projection, lock rule, sticky lock, lock origin\<close>

text \<open>
  Claim C2, as the code has it. While \<open>locked\<close> is false, \<open>serverNowMs\<close> returns \<open>null\<close>,
  whether or not a pulse has been accepted.
\<close>

theorem serverNowMs_null_while_unlocked:
  "\<not> locked s \<Longrightarrow> serverNowMs s now = None"
  by (simp add: serverNowMs_def)

theorem serverNowMs_null_while_unlocked_witness:
  "\<not> locked (fst (run (constructor default_options) first_pulse_history new_client))
   \<and> lastPulse (fst (run (constructor default_options) first_pulse_history new_client)) \<noteq> None
   \<and> serverNowMs (fst (run (constructor default_options) first_pulse_history new_client)) 1500 = None"
proof -
  have u: "\<not> locked (fst (run (constructor default_options) first_pulse_history new_client))"
    by code_simp
  have p: "lastPulse (fst (run (constructor default_options) first_pulse_history new_client)) \<noteq> None"
    by code_simp
  from serverNowMs_null_while_unlocked [OF u, of 1500] u p show ?thesis by simp
qed

text \<open>
  Claim C2 as stated fails: after the first pulse of a default client the state is not
  locked and has a last pulse, yet \<open>serverNowMs\<close> is not the estimate from that pulse.
\<close>

theorem unlocked_serverNowMs_not_last_pulse_estimate:
  "\<not> locked (fst (run (constructor default_options) first_pulse_history new_client))
   \<and> lastPulse (fst (run (constructor default_options) first_pulse_history new_client)) \<noteq> None
   \<and> serverNowMs (fst (run (constructor default_options) first_pulse_history new_client)) 1500
       \<noteq> Some (lp_serverNowMs (the (lastPulse (fst (run (constructor default_options) first_pulse_history new_client))))
                + (1500 - lp_arrivalMonoMs (the (lastPulse (fst (run (constructor default_options) first_pulse_history new_client))))))"
  by code_simp

text \<open>
  Claim C4, as the code has it. After every history of a client built by the constructor,
  \<open>locked\<close> is true exactly when the stability queue holds at least \<open>requiredStablePulses\<close>
  entries and \<open>stableCount\<close> is at least the larger of 1 and
  \<open>requiredStablePulses - allowedUnstablePulses\<close>.
\<close>

theorem locked_iff_window_full_and_target:
  "locked (fst (run (constructor opts) history new_client)) =
     (int (length (recentStability (fst (run (constructor opts) history new_client))))
        \<ge> requiredStablePulses (constructor opts)
      \<and> int (stableCount (fst (run (constructor opts) history new_client)))
        \<ge> max 1 (requiredStablePulses (constructor opts) - allowedUnstablePulses (constructor opts)))"
proof -
  have "locked new_client = lock_decision (constructor opts) new_client"
    using constructor_required [of opts] by (simp add: new_client_def lock_decision_def)
  from run_lock_decision [OF constructor_required this, of history]
  show ?thesis by (simp add: lock_decision_def stabilityTarget_def)
qed

theorem locked_iff_window_full_and_target_witness:
  "locked (fst (run (constructor window1_options) on_time_history new_client))
   \<and> \<not> locked (fst (run (constructor window1_options) late_pulse_history new_client))"
proof -
  have a: "int (length (recentStability (fst (run (constructor window1_options) on_time_history new_client))))
        \<ge> requiredStablePulses (constructor window1_options)
      \<and> int (stableCount (fst (run (constructor window1_options) on_time_history new_client)))
        \<ge> max 1 (requiredStablePulses (constructor window1_options) - allowedUnstablePulses (constructor window1_options))"
    by code_simp
  have b: "\<not> int (stableCount (fst (run (constructor window1_options) late_pulse_history new_client)))
        \<ge> max 1 (requiredStablePulses (constructor window1_options) - allowedUnstablePulses (constructor window1_options))"
    by code_simp
  from locked_iff_window_full_and_target [of window1_options on_time_history]
       locked_iff_window_full_and_target [of window1_options late_pulse_history] a b
  show ?thesis by blast
qed

text \<open>
  Claim C4 as stated fails when \<open>allowedUnstablePulses\<close> is not below
  \<open>requiredStablePulses\<close>. With a window of 1 and the default 2 allowed outliers, a second
  pulse arriving a second late fills the queue with one unstable entry: the queue is full and
  \<open>stableCount = 0\<close> is at least \<open>1 - 2\<close>, but \<open>locked\<close> is false.
\<close>

theorem full_window_negative_target_not_locked:
  "\<not> (locked (fst (run (constructor window1_options) late_pulse_history new_client)) =
     (int (length (recentStability (fst (run (constructor window1_options) late_pulse_history new_client))))
        \<ge> requiredStablePulses (constructor window1_options)
      \<and> int (stableCount (fst (run (constructor window1_options) late_pulse_history new_client)))
        \<ge> requiredStablePulses (constructor window1_options) - allowedUnstablePulses (constructor window1_options)))"
  by code_simp

text \<open>
  Claim C7. With \<open>stickyLock\<close> on and \<open>locked\<close> true, the \<open>message\<close> listener leaves the
  state as it is and dispatches no event, whatever the message is.
\<close>

theorem sticky_locked_message_is_ignored:
  "stickyLock cfg \<Longrightarrow> locked s \<Longrightarrow>
   step cfg (SocketMessage data arrivalMonoMs nowProj nowElapsed) s = (s, [])"
  by (cases data) (simp_all add: on_message_def handlePulse_def)

theorem sticky_locked_message_is_ignored_witness:
  "stickyLock (constructor window1_options)
   \<and> locked (fst (run (constructor window1_options) on_time_history new_client))
   \<and> step (constructor window1_options) (SocketMessage (IsPulse (pulse_at 2 7000)) 2000 2000 2000)
        (fst (run (constructor window1_options) on_time_history new_client))
      = (fst (run (constructor window1_options) on_time_history new_client), [])"
proof -
  have st: "stickyLock (constructor window1_options)" by code_simp
  have l: "locked (fst (run (constructor window1_options) on_time_history new_client))" by code_simp
  from sticky_locked_message_is_ignored [OF st l] st l show ?thesis by blast
qed

text \<open>
  Claim C10. In every state a client reaches from the state the constructor leaves, by any
  history of calls and socket events, \<open>locked\<close> implies that both parts of the lock origin
  are set, and \<open>serverNowMs\<close> then computes from the lock origin.
\<close>

theorem locked_implies_lock_origin:
  "locked (fst (run cfg history new_client)) \<longrightarrow>
     (\<exists>originMono originServer.
         lockOriginMonoMs (fst (run cfg history new_client)) = Some originMono
       \<and> lockOriginServerMs (fst (run cfg history new_client)) = Some originServer
       \<and> serverNowMs (fst (run cfg history new_client)) now = Some (originServer + (now - originMono)))"
proof
  assume l: "locked (fst (run cfg history new_client))"
  have "locked new_client \<longrightarrow> lockOriginMonoMs new_client \<noteq> None \<and> lockOriginServerMs new_client \<noteq> None"
    by (simp add: new_client_def)
  from run_origin [OF this l]
  obtain m sv where "lockOriginMonoMs (fst (run cfg history new_client)) = Some m"
    and "lockOriginServerMs (fst (run cfg history new_client)) = Some sv" by auto
  with l show "\<exists>originMono originServer.
         lockOriginMonoMs (fst (run cfg history new_client)) = Some originMono
       \<and> lockOriginServerMs (fst (run cfg history new_client)) = Some originServer
       \<and> serverNowMs (fst (run cfg history new_client)) now = Some (originServer + (now - originMono))"
    by (simp add: serverNowMs_def)
qed

theorem locked_implies_lock_origin_witness:
  "locked (fst (run (constructor window1_options) on_time_history new_client))
   \<and> serverNowMs (fst (run (constructor window1_options) on_time_history new_client)) 1500 = Some 6500"
proof -
  have l: "locked (fst (run (constructor window1_options) on_time_history new_client))" by code_simp
  have m: "lockOriginMonoMs (fst (run (constructor window1_options) on_time_history new_client)) = Some 1000"
    by code_simp
  have sv: "lockOriginServerMs (fst (run (constructor window1_options) on_time_history new_client)) = Some 6000"
    by code_simp
  from locked_implies_lock_origin [of "constructor window1_options" on_time_history 1500] l m sv
  show ?thesis by auto
qed


section \<open>Client: reconnecting, and wire fields\<close>











text \<open>
  Claim C9 at a message without \<open>seq\<close>. The fields \<open>period_ms\<close>, \<open>now_ms\<close> and \<open>next_ms\<close> go
  through \<open>finiteOr\<close>; \<open>seq\<close> is stored as it came, so a missing \<open>seq\<close> is stored as
  \<open>undefined\<close> and not as 0.
\<close>

theorem missing_seq_is_stored_undefined:
  "lastPulse (fst (handlePulse (constructor default_options) 0 0 0 pulse_without_seq new_client))
     = Some \<lparr>lp_seq = Undefined, lp_serverNowMs = 5000, lp_serverNextMs = 6000,
             lp_periodMs = 1000, lp_arrivalMonoMs = 0\<rparr>"
  by code_simp

end
